theory Spec2Isabelle
  imports Complex_Main
begin

section \<open>Python values, exceptions and log records\<close>

text \<open>
  A raised Python exception.  \<open>Exc m\<close> is an instance of \<open>Exception\<close> (or of a subclass)
  whose \<open>str\<close> is \<open>m\<close>; \<open>BaseExc n\<close> is an instance of a class that derives from
  \<open>BaseException\<close> only (\<open>KeyboardInterrupt\<close>, \<open>SystemExit\<close>, \<open>asyncio.CancelledError\<close>),
  which a clause \<open>except Exception\<close> does not catch.
\<close>

datatype exn = Exc string | BaseExc string

fun is_Exception :: "exn \<Rightarrow> bool" where
  "is_Exception (Exc m) = True"
| "is_Exception (BaseExc n) = False"

fun str_of :: "exn \<Rightarrow> string" where
  "str_of (Exc m) = m"
| "str_of (BaseExc n) = n"

datatype level = WARNING | ERROR

text \<open>
  What one run of the monitor does to the outside world, in order: a record handed to
  the logger \<open>session_manager\<close>, or a call of \<open>simulate_user_activity_session\<close>.
\<close>

datatype event = Log level string | SimulateCall


section \<open>\<open>load_config\<close>\<close>




section \<open>The settings read at the start of \<open>monitor\<close>\<close>

record config =
  idle_minutes :: int
  simulate_after_minutes :: int
  simulate_activity :: bool

text \<open>\<open>int(x)\<close> on a float truncates towards zero.\<close>

definition py_trunc :: "real \<Rightarrow> int" where
  "py_trunc x = (if 0 \<le> x then \<lfloor>x\<rfloor> else \<lceil>x\<rceil>)"





section \<open>The session-state client\<close>

text \<open>
  \<open>reply\<close> is what the D-Bus calls inside the \<open>try\<close> do: the first exception raised, or
  the truth value of the property read.  Without \<open>dbus_next\<close> nothing is called.
\<close>

definition get_logind_idle_hint :: "bool \<Rightarrow> exn + bool \<Rightarrow> exn + bool option" where
  "get_logind_idle_hint dbus_available reply =
     (if \<not> dbus_available then Inr None
      else case reply of
             Inr v \<Rightarrow> Inr (Some v)
           | Inl e \<Rightarrow> if is_Exception e then Inr None else Inl e)"

definition simulate_user_activity_session :: "bool \<Rightarrow> exn option \<Rightarrow> exn + bool" where
  "simulate_user_activity_session dbus_available reply =
     (if \<not> dbus_available then Inr False
      else case reply of
             None \<Rightarrow> Inr True
           | Some e \<Rightarrow> if is_Exception e then Inr False else Inl e)"

section \<open>One iteration of the loop of \<open>monitor\<close>\<close>

text \<open>
  The locals of \<open>monitor\<close> that the loop mutates, and the ones it only reads: the module
  flag \<open>DBUS_AVAILABLE\<close> and whether \<open>system_bus\<close> and \<open>session_bus\<close> are set.
\<close>

record tracker =
  last_idle_state :: "bool option"
  idle_since :: "real option"

record buses =
  dbus_available :: bool
  system_bus :: bool
  session_bus :: bool

text \<open>
  What the outside world answers during one iteration.  \<open>clock\<close> is \<open>time.time()\<close>, a
  float that is read here as the real number it stands for.  Every other field is the
  outcome of one call site: \<open>None\<close> (or \<open>Inr\<close>) when the call returns, the exception
  when it raises.  \<open>warning_call\<close> serves lines 130 and 144, of which an iteration reaches
  at most one; \<open>error_call\<close> is line 138, \<open>handler_call\<close> line 147, \<open>sleep_call\<close> line 149.
\<close>

record env =
  idle_reply :: "exn + bool"
  clock :: real
  warning_call :: "exn option"
  activity_reply :: "exn option"
  error_call :: "exn option"
  handler_call :: "exn option"
  sleep_call :: "exn option"

text \<open>
  A statement sequence in progress: the locals so far, the events so far, and the
  exception that left the sequence, if one did.
\<close>

type_synonym progress = "tracker \<times> event list \<times> exn option"

definition and_then :: "progress \<Rightarrow> (tracker \<Rightarrow> progress) \<Rightarrow> progress" where
  "and_then p f =
     (case p of
        (s, evs, Some e) \<Rightarrow> (s, evs, Some e)
      | (s, evs, None) \<Rightarrow> (case f s of (s', evs', x) \<Rightarrow> (s', evs @ evs', x)))"

text \<open>Lines 120 to 124.\<close>

definition track_idle :: "bool \<Rightarrow> real \<Rightarrow> tracker \<Rightarrow> tracker" where
  "track_idle idle_hint now s =
     (if idle_hint then (if idle_since s = None then s\<lparr>idle_since := Some now\<rparr> else s)
      else s\<lparr>idle_since := None\<rparr>)"

text \<open>Lines 127 to 131.\<close>

definition log_change :: "env \<Rightarrow> bool \<Rightarrow> tracker \<Rightarrow> progress" where
  "log_change e idle_hint s =
     (if last_idle_state s \<noteq> Some idle_hint then
        (if idle_hint then
           (case warning_call e of
              Some x \<Rightarrow> (s, [], Some x)
            | None \<Rightarrow> (s\<lparr>last_idle_state := Some idle_hint\<rparr>,
                       [Log WARNING ''Session idle detected''], None))
         else (s\<lparr>last_idle_state := Some idle_hint\<rparr>, [], None))
      else (s, [], None))"

text \<open>Lines 133 to 140.\<close>

definition keep_awake :: "config \<Rightarrow> buses \<Rightarrow> env \<Rightarrow> bool \<Rightarrow> real \<Rightarrow> tracker \<Rightarrow> progress" where
  "keep_awake cfg b e idle_hint now s =
     (if idle_hint \<and> simulate_activity cfg \<and> session_bus b then
        (let idle_duration_minutes =
               (case idle_since s of Some t \<Rightarrow> (now - t) / 60 | None \<Rightarrow> 0)
         in if idle_duration_minutes \<ge> real_of_int (simulate_after_minutes cfg) then
              (case simulate_user_activity_session (dbus_available b) (activity_reply e) of
                 Inl x \<Rightarrow> (s, [SimulateCall], Some x)
               | Inr ok \<Rightarrow>
                   (if \<not> ok then
                      (case error_call e of
                         Some x \<Rightarrow> (s, [SimulateCall], Some x)
                       | None \<Rightarrow> (s\<lparr>idle_since := Some now\<rparr>,
                                  [SimulateCall, Log ERROR ''Activity simulation failed''], None))
                    else (s\<lparr>idle_since := Some now\<rparr>, [SimulateCall], None)))
            else (s, [], None))
      else (s, [], None))"

text \<open>Lines 113 to 144: the body of the \<open>try\<close>.\<close>

definition poll_body :: "config \<Rightarrow> buses \<Rightarrow> env \<Rightarrow> tracker \<Rightarrow> progress" where
  "poll_body cfg b e s =
     (case (if system_bus b then get_logind_idle_hint (dbus_available b) (idle_reply e)
            else Inr None) of
        Inl x \<Rightarrow> (s, [], Some x)
      | Inr idle_hint \<Rightarrow>
          (let now = clock e in
           case idle_hint of
             Some h \<Rightarrow> and_then (log_change e h (track_idle h now s)) (keep_awake cfg b e h now)
           | None \<Rightarrow>
               (if py_trunc now mod 300 = 0 then
                  (case warning_call e of
                     Some x \<Rightarrow> (s, [], Some x)
                   | None \<Rightarrow> (s, [Log WARNING ''Session monitor running (no D-Bus)''], None))
                else (s, [], None))))"

text \<open>
  Lines 112 to 149: the \<open>try\<close>, its handler and the sleep.  \<open>Running\<close> means the
  iteration reached the end of the loop body; \<open>Stopped x\<close> means \<open>x\<close> left \<open>monitor\<close>.
\<close>

datatype status = Running | Stopped exn

definition after_sleep :: "env \<Rightarrow> status" where
  "after_sleep e = (case sleep_call e of None \<Rightarrow> Running | Some x \<Rightarrow> Stopped x)"

definition tick :: "config \<Rightarrow> buses \<Rightarrow> env \<Rightarrow> tracker \<Rightarrow> tracker \<times> event list \<times> status" where
  "tick cfg b e s =
     (case poll_body cfg b e s of
        (s', evs, None) \<Rightarrow> (s', evs, after_sleep e)
      | (s', evs, Some x) \<Rightarrow>
          (if is_Exception x then
             (case handler_call e of
                None \<Rightarrow> (s', evs @ [Log ERROR (''Monitor error: '' @ str_of x)], after_sleep e)
              | Some y \<Rightarrow> (s', evs, Stopped y))
           else (s', evs, Stopped x)))"

section \<open>The loop\<close>

text \<open>
  \<open>while True\<close> has no exit of its own.  A run is followed along a finite list of
  iteration surroundings, one per iteration: the result holds the locals afterwards, the
  events of every iteration that started, and whether the loop is still going.
\<close>

definition initial :: tracker where
  "initial = \<lparr>last_idle_state = None, idle_since = None\<rparr>"

fun monitor_loop ::
  "config \<Rightarrow> buses \<Rightarrow> tracker \<Rightarrow> env list \<Rightarrow> tracker \<times> event list list \<times> status" where
  "monitor_loop cfg b s [] = (s, [], Running)"
| "monitor_loop cfg b s (e # es) =
     (case tick cfg b e s of
        (s', evs, Running) \<Rightarrow>
          (case monitor_loop cfg b s' es of (s'', evss, st) \<Rightarrow> (s'', evs # evss, st))
      | (s', evs, Stopped x) \<Rightarrow> (s', [evs], Stopped x))"

section \<open>Vocabulary of the properties\<close>

text \<open>
  The sample an iteration obtains: the value of \<open>idle_hint\<close> at line 119, and \<open>None\<close>
  also when the query raised.
\<close>

definition idle_sample :: "buses \<Rightarrow> env \<Rightarrow> bool option" where
  "idle_sample b e =
     (if system_bus b then
        (case get_logind_idle_hint (dbus_available b) (idle_reply e) of
           Inr r \<Rightarrow> r
         | Inl x \<Rightarrow> None)
      else None)"

text \<open>The sample of the latest iteration that obtained one.\<close>

fun latest_sample :: "buses \<Rightarrow> env list \<Rightarrow> bool option" where
  "latest_sample b [] = None"
| "latest_sample b (e # es) =
     (case latest_sample b es of Some h \<Rightarrow> Some h | None \<Rightarrow> idle_sample b e)"

text \<open>
  An iteration in which no call raises into \<open>monitor\<close>: the property read yields \<open>hint\<close>
  (\<open>None\<close>: it raises an \<open>Exception\<close>, which \<open>get_logind_idle_hint\<close> turns into
  \<open>None\<close>), the clock shows \<open>now\<close>, the ScreenSaver call goes through exactly when
  \<open>ok\<close>, and the logger and the sleep return.
\<close>

definition answers :: "bool option \<Rightarrow> real \<Rightarrow> bool \<Rightarrow> env" where
  "answers hint now ok =
     \<lparr>idle_reply = (case hint of Some h \<Rightarrow> Inr h | None \<Rightarrow> Inl (Exc ''login1 unreachable'')),
      clock = now,
      warning_call = None,
      activity_reply = (if ok then None else Some (Exc ''ScreenSaver unreachable'')),
      error_call = None,
      handler_call = None,
      sleep_call = None\<rparr>"

text \<open>
  A stream of successful samples, one per iteration: the idle hint, the clock, and
  whether a simulation attempted in that iteration would succeed.
\<close>

definition feed :: "(bool \<times> real \<times> bool) list \<Rightarrow> env list" where
  "feed xs = map (\<lambda>(h, now, ok). answers (Some h) now ok) xs"

definition continuous_idle :: "(real \<times> bool) list \<Rightarrow> (bool \<times> real \<times> bool) list" where
  "continuous_idle ticks = map (\<lambda>(now, ok). (True, now, ok)) ticks"

text \<open>How often a run logged the idle transition.\<close>

definition idle_logged :: "event list list \<Rightarrow> nat" where
  "idle_logged evss =
     length (filter (\<lambda>ev. ev = Log WARNING ''Session idle detected'') (concat evss))"

text \<open>
  The number of contiguous runs of \<open>True\<close> in a list of samples, after the wording of
  the specification: squeeze every run to one element and count the \<open>True\<close>s left.
\<close>

definition idle_runs :: "bool list \<Rightarrow> nat" where
  "idle_runs hs = length (filter (\<lambda>h. h) (remdups_adj hs))"

text \<open>The same count, told the way the loop sees it: with the previous sample at hand.\<close>

fun rises :: "bool \<Rightarrow> bool list \<Rightarrow> nat" where
  "rises p [] = 0"
| "rises p (h # hs) = (if h \<and> \<not> p then 1 else 0) + rises h hs"

text \<open>The clock readings of the iterations that called the simulation.\<close>

definition call_times :: "real list \<Rightarrow> event list list \<Rightarrow> real list" where
  "call_times ts evss = map fst (filter (\<lambda>(t, evs). SimulateCall \<in> set evs) (zip ts evss))"


text \<open>
  Whatever a call inside the \<open>try\<close> raises in this iteration is an instance of
  \<open>Exception\<close>.
\<close>

definition raises_only_Exception :: "env \<Rightarrow> bool" where
  "raises_only_Exception e =
     ((case idle_reply e of Inl x \<Rightarrow> is_Exception x | Inr v \<Rightarrow> True) \<and>
      (case warning_call e of Some x \<Rightarrow> is_Exception x | None \<Rightarrow> True) \<and>
      (case activity_reply e of Some x \<Rightarrow> is_Exception x | None \<Rightarrow> True) \<and>
      (case error_call e of Some x \<Rightarrow> is_Exception x | None \<Rightarrow> True))"

text \<open>\<open>x\<close> is raised by one of the calls inside the \<open>try\<close>.\<close>

definition raised_in_body :: "env \<Rightarrow> exn \<Rightarrow> bool" where
  "raised_in_body e x =
     (idle_reply e = Inl x \<or> warning_call e = Some x \<or>
      activity_reply e = Some x \<or> error_call e = Some x)"

text \<open>
  The ways an exception leaves the loop body in an iteration: the handler's own log call
  raises it, the sleep raises it, or a call inside the \<open>try\<close> raises it and it is not an
  instance of \<open>Exception\<close>.
\<close>

definition stops_loop :: "env \<Rightarrow> exn \<Rightarrow> bool" where
  "stops_loop e x =
     (handler_call e = Some x \<or> sleep_call e = Some x \<or>
      (raised_in_body e x \<and> \<not> is_Exception x))"

text \<open>Inputs for the worked examples: both buses connected, and the settings of the tests.\<close>

definition connected :: buses where
  "connected = \<lparr>dbus_available = True, system_bus = True, session_bus = True\<rparr>"

definition example_config :: config where
  "example_config = \<lparr>idle_minutes = 5, simulate_after_minutes = 2, simulate_activity = True\<rparr>"


lemmas run_defs = tick_def poll_body_def and_then_def log_change_def track_idle_def keep_awake_def
  get_logind_idle_hint_def simulate_user_activity_session_def after_sleep_def py_trunc_def
  answers_def feed_def continuous_idle_def connected_def example_config_def initial_def
  call_times_def idle_sample_def

section \<open>Facts about one iteration\<close>

lemma loop_step:
  "tick cfg b e s = (s1, evs, Running) \<Longrightarrow>
     monitor_loop cfg b s (e # es) =
       (fst (monitor_loop cfg b s1 es), evs # fst (snd (monitor_loop cfg b s1 es)),
        snd (snd (monitor_loop cfg b s1 es)))"
  by (simp split: prod.splits)

lemma tick_state: "fst (tick cfg b e s) = fst (poll_body cfg b e s)"
  by (simp add: tick_def split: prod.splits option.splits)

lemma keep_awake_not_idle: "keep_awake cfg b e False now s = (s, [], None)"
  by (simp add: keep_awake_def)

lemma keep_awake_idle_since:
  "idle_since s = Some t \<Longrightarrow> idle_since (fst (keep_awake cfg b e h now s)) \<in> {Some t, Some now}"
  by (simp add: keep_awake_def Let_def split: sum.splits option.splits)

lemma log_change_idle_since: "idle_since (fst (log_change e h s)) = idle_since s"
  by (simp add: log_change_def split: option.splits)

lemma track_idle_idle_since: "(idle_since (track_idle h now s) = None) = (\<not> h)"
  by (cases "idle_since s") (simp_all add: track_idle_def)

lemma and_then_state:
  "fst (and_then p f) = (case snd (snd p) of Some x \<Rightarrow> fst p | None \<Rightarrow> fst (f (fst p)))"
  by (simp add: and_then_def split: prod.splits option.splits)

lemma sampled_idle_since:
  "(idle_since (fst (and_then (log_change e h (track_idle h now s)) (keep_awake cfg b e h now))) = None)
     = (\<not> h)"
proof (cases h)
  case True
  then obtain t where t: "idle_since (fst (log_change e h (track_idle h now s))) = Some t"
    using track_idle_idle_since [of h now s] by (auto simp: log_change_idle_since)
  show ?thesis
    using True t keep_awake_idle_since [OF t, of cfg b e h now]
    by (auto simp: and_then_state split: option.splits)
next
  case False
  then show ?thesis
    by (simp add: and_then_state keep_awake_not_idle log_change_idle_since track_idle_idle_since
          split: option.splits)
qed

lemma poll_body_no_sample:
  "idle_sample b e = None \<Longrightarrow> fst (poll_body cfg b e s) = s"
  by (auto simp: poll_body_def idle_sample_def split: sum.splits option.splits if_splits)

lemma poll_body_sample:
  "idle_sample b e = Some h \<Longrightarrow>
     poll_body cfg b e s =
       and_then (log_change e h (track_idle h (clock e) s)) (keep_awake cfg b e h (clock e))"
  by (auto simp: poll_body_def idle_sample_def Let_def split: sum.splits if_splits)

lemma tick_idle_since:
  "(idle_since (fst (tick cfg b e s)) = None) =
     (case idle_sample b e of Some h \<Rightarrow> \<not> h | None \<Rightarrow> idle_since s = None)"
  by (cases "idle_sample b e")
     (simp_all add: tick_state poll_body_no_sample poll_body_sample sampled_idle_since)

lemma loop_idle_since:
  "(idle_since (fst (monitor_loop cfg b s es)) = None) =
     (case latest_sample b (take (length (fst (snd (monitor_loop cfg b s es)))) es) of
        Some h \<Rightarrow> \<not> h | None \<Rightarrow> idle_since s = None)"
proof (induction es arbitrary: s)
  case Nil
  show ?case by simp
next
  case (Cons e es)
  obtain s1 evs st where t: "tick cfg b e s = (s1, evs, st)"
    by (cases "tick cfg b e s") auto
  have one: "(idle_since s1 = None) =
     (case idle_sample b e of Some h \<Rightarrow> \<not> h | None \<Rightarrow> idle_since s = None)"
    using tick_idle_since [of cfg b e s] t by simp
  show ?case
  proof (cases st)
    case Running
    obtain s2 evss st2 where r: "monitor_loop cfg b s1 es = (s2, evss, st2)"
      by (cases "monitor_loop cfg b s1 es") auto
    from Cons.IH [of s1] r
    have ih: "(idle_since s2 = None) =
      (case latest_sample b (take (length evss) es) of
         Some h \<Rightarrow> \<not> h | None \<Rightarrow> idle_since s1 = None)"
      by simp
    show ?thesis
      using t Running r ih one by (simp split: option.splits)
  next
    case (Stopped x)
    then show ?thesis using t one by (simp split: option.splits)
  qed
qed

lemma tick_no_call:
  "\<not> simulate_activity cfg \<Longrightarrow> SimulateCall \<notin> set (fst (snd (tick cfg b e s)))"
  by (auto simp: tick_def poll_body_def and_then_def log_change_def keep_awake_def Let_def
           split: option.splits sum.splits if_splits)

lemma tick_cong:
  assumes "simulate_after_minutes c1 = simulate_after_minutes c2"
    and "simulate_activity c1 = simulate_activity c2"
  shows "tick c1 b e s = tick c2 b e s"
proof -
  have "keep_awake c1 b e h now = keep_awake c2 b e h now" for h now
    by (rule ext) (simp add: keep_awake_def assms)
  then have "poll_body c1 b e s = poll_body c2 b e s"
    by (simp add: poll_body_def Let_def split: sum.splits option.splits)
  then show ?thesis by (simp add: tick_def)
qed

subsection \<open>Where an exception can come from\<close>

lemma keep_awake_raises:
  "raises_only_Exception e \<Longrightarrow> snd (snd (keep_awake cfg b e h now s)) = Some x \<Longrightarrow> is_Exception x"
  by (auto simp: keep_awake_def raises_only_Exception_def simulate_user_activity_session_def Let_def
           split: if_splits option.splits sum.splits)

lemma log_change_raises:
  "raises_only_Exception e \<Longrightarrow> snd (snd (log_change e h s)) = Some x \<Longrightarrow> is_Exception x"
  by (auto simp: log_change_def raises_only_Exception_def split: if_splits option.splits)

lemma and_then_raises:
  "snd (snd (and_then p f)) = Some x \<Longrightarrow>
     snd (snd p) = Some x \<or> snd (snd (f (fst p))) = Some x"
  by (auto simp: and_then_def split: prod.splits option.splits)

lemma poll_body_raises:
  assumes "raises_only_Exception e" and "snd (snd (poll_body cfg b e s)) = Some x"
  shows "is_Exception x"
proof (cases "idle_sample b e")
  case (Some h)
  from assms(2) poll_body_sample [OF Some, of cfg s]
  have "snd (snd (log_change e h (track_idle h (clock e) s))) = Some x \<or>
        snd (snd (keep_awake cfg b e h (clock e) (fst (log_change e h (track_idle h (clock e) s))))) = Some x"
    using and_then_raises by metis
  then show ?thesis
    using assms(1) log_change_raises keep_awake_raises by blast
next
  case None
  then show ?thesis
    using assms
    by (auto simp: poll_body_def idle_sample_def raises_only_Exception_def get_logind_idle_hint_def
             split: if_splits option.splits sum.splits)
qed

lemma tick_goes_on:
  assumes "raises_only_Exception e" and "handler_call e = None" and "sleep_call e = None"
  shows "snd (snd (tick cfg b e s)) = Running"
proof (cases "snd (snd (poll_body cfg b e s))")
  case None
  then show ?thesis using assms
    by (auto simp: tick_def after_sleep_def split: prod.splits)
next
  case (Some x)
  then have "is_Exception x" using poll_body_raises [OF assms(1)] by blast
  then show ?thesis using Some assms
    by (auto simp: tick_def after_sleep_def split: prod.splits)
qed

lemma keep_awake_source:
  "snd (snd (keep_awake cfg b e h now s)) = Some x \<Longrightarrow>
     activity_reply e = Some x \<or> error_call e = Some x"
  by (auto simp: keep_awake_def simulate_user_activity_session_def Let_def
           split: if_splits option.splits sum.splits)

lemma log_change_source:
  "snd (snd (log_change e h s)) = Some x \<Longrightarrow> warning_call e = Some x"
  by (auto simp: log_change_def split: if_splits option.splits)

lemma poll_body_source:
  assumes "snd (snd (poll_body cfg b e s)) = Some x"
  shows "raised_in_body e x"
proof (cases "idle_sample b e")
  case (Some h)
  from assms poll_body_sample [OF Some, of cfg s]
  have "snd (snd (log_change e h (track_idle h (clock e) s))) = Some x \<or>
        snd (snd (keep_awake cfg b e h (clock e) (fst (log_change e h (track_idle h (clock e) s))))) = Some x"
    using and_then_raises by metis
  then show ?thesis
    using log_change_source keep_awake_source unfolding raised_in_body_def by blast
next
  case None
  then show ?thesis
    using assms
    by (auto simp: poll_body_def idle_sample_def raised_in_body_def get_logind_idle_hint_def
             split: if_splits option.splits sum.splits)
qed

lemma tick_stops:
  assumes "snd (snd (tick cfg b e s)) = Stopped x"
  shows "stops_loop e x"
proof (cases "snd (snd (poll_body cfg b e s))")
  case None
  then show ?thesis using assms
    by (auto simp: tick_def after_sleep_def stops_loop_def split: prod.splits option.splits)
next
  case (Some y)
  show ?thesis
  proof (cases "is_Exception y")
    case True
    then show ?thesis using Some assms
      by (auto simp: tick_def after_sleep_def stops_loop_def split: prod.splits option.splits)
  next
    case False
    then have "x = y" using Some assms
      by (auto simp: tick_def split: prod.splits)
    then show ?thesis
      using False poll_body_source [OF Some] by (simp add: stops_loop_def)
  qed
qed

lemma loop_goes_on:
  assumes "\<forall>e \<in> set es. raises_only_Exception e \<and> handler_call e = None \<and> sleep_call e = None"
  shows "snd (snd (monitor_loop cfg b s es)) = Running \<and>
         length (fst (snd (monitor_loop cfg b s es))) = length es"
  using assms
proof (induction es arbitrary: s)
  case Nil
  show ?case by simp
next
  case (Cons e es)
  obtain s1 evs st where t: "tick cfg b e s = (s1, evs, st)"
    by (cases "tick cfg b e s") auto
  have "st = Running"
    using tick_goes_on [of e cfg b s] Cons.prems t by simp
  then have t': "tick cfg b e s = (s1, evs, Running)"
    using t by simp
  show ?case
    unfolding loop_step [OF t'] using Cons.IH [of s1] Cons.prems by simp
qed

lemma loop_stops:
  "snd (snd (monitor_loop cfg b s es)) = Stopped x \<Longrightarrow> \<exists>e \<in> set es. stops_loop e x"
proof (induction es arbitrary: s)
  case Nil
  then show ?case by simp
next
  case (Cons e es)
  obtain s1 evs st where t: "tick cfg b e s = (s1, evs, st)"
    by (cases "tick cfg b e s") auto
  show ?case
  proof (cases st)
    case Running
    then have t': "tick cfg b e s = (s1, evs, Running)"
      using t by simp
    have "snd (snd (monitor_loop cfg b s1 es)) = Stopped x"
      using Cons.prems unfolding loop_step [OF t'] by simp
    then show ?thesis using Cons.IH [of s1] by auto
  next
    case (Stopped y)
    then have "y = x" using Cons.prems t by simp
    then have "stops_loop e x"
      using tick_stops [of cfg b e s x] t Stopped by simp
    then show ?thesis by simp
  qed
qed

lemma tick_catches:
  assumes "poll_body cfg b e s = (s', evs, Some (Exc m))"
    and "handler_call e = None" and "sleep_call e = None"
  shows "tick cfg b e s = (s', evs @ [Log ERROR (''Monitor error: '' @ m)], Running)"
  using assms by (simp add: tick_def after_sleep_def)

subsection \<open>Iterations in which nothing raises\<close>

lemma answers_sample:
  "system_bus b \<Longrightarrow> dbus_available b \<Longrightarrow> idle_sample b (answers hint now ok) = hint"
  by (simp add: idle_sample_def answers_def get_logind_idle_hint_def split: option.splits)

lemma keep_awake_answers:
  "snd (snd (keep_awake cfg b (answers hint t ok) h now s)) = None \<and>
   last_idle_state (fst (keep_awake cfg b (answers hint t ok) h now s)) = last_idle_state s \<and>
   filter (\<lambda>ev. ev = Log WARNING ''Session idle detected'')
     (fst (snd (keep_awake cfg b (answers hint t ok) h now s))) = []"
  by (simp add: keep_awake_def answers_def simulate_user_activity_session_def Let_def)

lemma log_change_answers:
  "log_change (answers hint t ok) h s =
     (s\<lparr>last_idle_state := Some h\<rparr>,
      if h \<and> last_idle_state s \<noteq> Some True then [Log WARNING ''Session idle detected''] else [],
      None)"
  by (cases h) (auto simp add: log_change_def answers_def)

lemma body_answers:
  assumes "system_bus b" and "dbus_available b"
  shows "poll_body cfg b (answers (Some h) now ok) s =
     (case keep_awake cfg b (answers (Some h) now ok) h now
             ((track_idle h now s)\<lparr>last_idle_state := Some h\<rparr>) of
        (s', evs, x) \<Rightarrow>
          (s', (if h \<and> last_idle_state s \<noteq> Some True
                then [Log WARNING ''Session idle detected''] else []) @ evs, x))"
proof -
  have c: "clock (answers (Some h) now ok) = now" by (simp add: answers_def)
  have l: "last_idle_state (track_idle h now s) = last_idle_state s"
    by (simp add: track_idle_def)
  show ?thesis
    using poll_body_sample [OF answers_sample [OF assms, of "Some h" now ok], of cfg s]
    by (simp add: c l log_change_answers and_then_def)
qed

lemma tick_answers:
  assumes "system_bus b" and "dbus_available b"
  shows "tick cfg b (answers (Some h) now ok) s =
     (fst (keep_awake cfg b (answers (Some h) now ok) h now
             ((track_idle h now s)\<lparr>last_idle_state := Some h\<rparr>)),
      (if h \<and> last_idle_state s \<noteq> Some True
       then [Log WARNING ''Session idle detected''] else []) @
      fst (snd (keep_awake cfg b (answers (Some h) now ok) h now
             ((track_idle h now s)\<lparr>last_idle_state := Some h\<rparr>))),
      Running)"
proof -
  have sl: "after_sleep (answers (Some h) now ok) = Running"
    by (simp add: after_sleep_def answers_def)
  obtain s' evs x where k: "keep_awake cfg b (answers (Some h) now ok) h now
             ((track_idle h now s)\<lparr>last_idle_state := Some h\<rparr>) = (s', evs, x)"
    by (metis prod_cases3)
  have "x = None" using keep_awake_answers [of cfg b "Some h" now ok h now
      "(track_idle h now s)\<lparr>last_idle_state := Some h\<rparr>"] k by simp
  then show ?thesis
    using k by (simp add: tick_def body_answers [OF assms] sl)
qed

lemma keep_awake_call:
  assumes "idle_since s = Some t0"
  shows "(SimulateCall \<in> set (fst (snd (keep_awake cfg b (answers hint t ok) h now s))) \<longrightarrow>
            real_of_int (simulate_after_minutes cfg) \<le> (now - t0) / 60 \<and>
            idle_since (fst (keep_awake cfg b (answers hint t ok) h now s)) = Some now) \<and>
         (SimulateCall \<notin> set (fst (snd (keep_awake cfg b (answers hint t ok) h now s))) \<longrightarrow>
            idle_since (fst (keep_awake cfg b (answers hint t ok) h now s)) = Some t0)"
  using assms
  by (simp add: keep_awake_def answers_def simulate_user_activity_session_def Let_def)

lemma keep_awake_fires:
  assumes "h" and "simulate_activity cfg" and "session_bus b" and "dbus_available b"
    and "idle_since s = Some t0"
    and "real_of_int (simulate_after_minutes cfg) \<le> (now - t0) / 60"
  shows "keep_awake cfg b (answers hint t ok) h now s =
           (s\<lparr>idle_since := Some now\<rparr>,
            if ok then [SimulateCall] else [SimulateCall, Log ERROR ''Activity simulation failed''],
            None)"
  using assms
  by (simp add: keep_awake_def answers_def simulate_user_activity_session_def Let_def)

subsection \<open>Counting what a run logs and calls\<close>

lemma idle_logged_Cons:
  "idle_logged (evs # evss) =
     length (filter (\<lambda>ev. ev = Log WARNING ''Session idle detected'') evs) + idle_logged evss"
  by (simp add: idle_logged_def)

lemma loop_rises:
  assumes "system_bus b" and "dbus_available b"
  shows "idle_logged (fst (snd (monitor_loop cfg b s (feed xs)))) =
           rises (last_idle_state s = Some True) (map fst xs)"
proof (induction xs arbitrary: s)
  case Nil
  show ?case by (simp add: feed_def idle_logged_def)
next
  case (Cons x xs)
  obtain h now ok where x: "x = (h, now, ok)" by (cases x) auto
  let ?k = "keep_awake cfg b (answers (Some h) now ok) h now
             ((track_idle h now s)\<lparr>last_idle_state := Some h\<rparr>)"
  have f: "feed (x # xs) = answers (Some h) now ok # feed xs"
    by (simp add: feed_def x)
  have last: "last_idle_state (fst ?k) = Some h"
    using keep_awake_answers [of cfg b "Some h" now ok h now
      "(track_idle h now s)\<lparr>last_idle_state := Some h\<rparr>"] by simp
  have none: "filter (\<lambda>ev. ev = Log WARNING ''Session idle detected'') (fst (snd ?k)) = []"
    using keep_awake_answers [of cfg b "Some h" now ok h now
      "(track_idle h now s)\<lparr>last_idle_state := Some h\<rparr>"] by simp
  show ?case
    unfolding f loop_step [OF tick_answers [OF assms]]
    using Cons.IH [of "fst ?k"] last none
    by (simp add: idle_logged_Cons x)
qed

lemma runs_rises:
  "length (filter (\<lambda>h. h) (remdups_adj (h # hs))) = (if h then 1 else 0) + rises h hs"
  by (induction hs arbitrary: h) auto

lemma rises_runs: "rises False hs = idle_runs hs"
  by (cases hs) (simp_all add: idle_runs_def runs_rises)

lemma call_times_Cons:
  "call_times (t # ts) (evs # evss) =
     (if SimulateCall \<in> set evs then t # call_times ts evss else call_times ts evss)"
  by (simp add: call_times_def)

lemma loop_spacing:
  assumes "system_bus b" and "dbus_available b" and "simulate_after_minutes cfg = 2"
  shows "idle_since s = Some t0 \<Longrightarrow>
     (\<forall>c \<in> set (call_times (map fst ticks)
                  (fst (snd (monitor_loop cfg b s (feed (continuous_idle ticks)))))). t0 + 120 \<le> c) \<and>
     successively (\<lambda>c c'. c + 120 \<le> c')
       (call_times (map fst ticks)
          (fst (snd (monitor_loop cfg b s (feed (continuous_idle ticks))))))"
proof (induction ticks arbitrary: s t0)
  case Nil
  show ?case by (simp add: call_times_def)
next
  case (Cons x ticks)
  obtain now ok where x: "x = (now, ok)" by (cases x) auto
  let ?s1 = "(track_idle True now s)\<lparr>last_idle_state := Some True\<rparr>"
  let ?k = "keep_awake cfg b (answers (Some True) now ok) True now ?s1"
  let ?rest = "call_times (map fst ticks)
                 (fst (snd (monitor_loop cfg b (fst ?k) (feed (continuous_idle ticks)))))"
  have f: "feed (continuous_idle (x # ticks)) = answers (Some True) now ok # feed (continuous_idle ticks)"
    by (simp add: feed_def continuous_idle_def x)
  have i: "idle_since ?s1 = Some t0"
    using Cons.prems by (simp add: track_idle_def)
  note kc = keep_awake_call [OF i, of cfg b "Some True" now ok True now]
  show ?case
  proof (cases "SimulateCall \<in> set (fst (snd ?k))")
    case True
    then have late: "t0 + 120 \<le> now" and after: "idle_since (fst ?k) = Some now"
      using kc assms(3) by auto
    have ih: "(\<forall>c \<in> set ?rest. now + 120 \<le> c) \<and> successively (\<lambda>c c'. c + 120 \<le> c') ?rest"
      using Cons.IH [OF after] .
    have "call_times (map fst (x # ticks))
            (fst (snd (monitor_loop cfg b s (feed (continuous_idle (x # ticks)))))) = now # ?rest"
      unfolding f loop_step [OF tick_answers [OF assms(1,2)]]
      using True by (simp add: x call_times_Cons)
    moreover have "\<forall>c \<in> set (now # ?rest). t0 + 120 \<le> c"
      using late ih by auto
    moreover have "successively (\<lambda>c c'. c + 120 \<le> c') (now # ?rest)"
      using ih by (cases ?rest) auto
    ultimately show ?thesis by simp
  next
    case False
    then have after: "idle_since (fst ?k) = Some t0"
      using kc by auto
    have "call_times (map fst (x # ticks))
            (fst (snd (monitor_loop cfg b s (feed (continuous_idle (x # ticks)))))) = ?rest"
      unfolding f loop_step [OF tick_answers [OF assms(1,2)]]
      using False by (simp add: x call_times_Cons)
    then show ?thesis
      using Cons.IH [OF after] by simp
  qed
qed

section \<open>The claims\<close>

text \<open>
  C1, as stated, at an input: the session has been idle since \<open>t = 0\<close>, the delay is two
  minutes, and at \<open>t = 120\<close> the simulation is attempted and fails.  The claim keeps
  \<open>idle_since\<close> at \<open>0\<close>; line 140 runs after the \<open>if not ok\<close> and moves it to \<open>120\<close>.
\<close>

theorem failed_simulate_moves_idle_since:
  "tick example_config connected (answers (Some True) 120 False)
       \<lparr>last_idle_state = Some True, idle_since = Some 0\<rparr> =
     (\<lparr>last_idle_state = Some True, idle_since = Some 120\<rparr>,
      [SimulateCall, Log ERROR ''Activity simulation failed''], Running)"
  by (simp add: run_defs)

text \<open>
  C1, amended: on every iteration that samples idle with the simulation enabled and the
  delay elapsed (counted from \<open>idle_since\<close>, or from now when it was unset),
  \<open>simulate_user_activity_session\<close> is called once and \<open>idle_since\<close> becomes the current
  time whether the call succeeded or failed; a failure adds the error record
  \<open>Activity simulation failed\<close> and nothing else.
\<close>

theorem simulate_resets_idle_since_either_way:
  assumes "system_bus b" and "dbus_available b" and "session_bus b" and "simulate_activity cfg"
    and "real_of_int (simulate_after_minutes cfg) \<le>
           (now - (case idle_since s of Some t \<Rightarrow> t | None \<Rightarrow> now)) / 60"
  shows "tick cfg b (answers (Some True) now ok) s =
           (\<lparr>last_idle_state = Some True, idle_since = Some now\<rparr>,
            (if last_idle_state s \<noteq> Some True then [Log WARNING ''Session idle detected''] else [])
            @ (if ok then [SimulateCall]
               else [SimulateCall, Log ERROR ''Activity simulation failed'']),
            Running)"
proof -
  let ?s1 = "(track_idle True now s)\<lparr>last_idle_state := Some True\<rparr>"
  have i: "idle_since ?s1 = Some (case idle_since s of Some t \<Rightarrow> t | None \<Rightarrow> now)"
    by (simp add: track_idle_def split: option.splits)
  have k: "keep_awake cfg b (answers (Some True) now ok) True now ?s1 =
           (?s1\<lparr>idle_since := Some now\<rparr>,
            if ok then [SimulateCall] else [SimulateCall, Log ERROR ''Activity simulation failed''],
            None)"
    using keep_awake_fires [OF _ assms(4,3,2) i assms(5)] by simp
  show ?thesis
    unfolding tick_answers [OF assms(1,2)] k
    by (cases s) (simp add: track_idle_def)
qed

theorem simulate_resets_idle_since_either_way_witness:
  "system_bus connected \<and> dbus_available connected \<and> session_bus connected \<and>
   simulate_activity example_config \<and>
   tick example_config connected (answers (Some True) 150 True)
       \<lparr>last_idle_state = Some True, idle_since = Some 30\<rparr> =
     (\<lparr>last_idle_state = Some True, idle_since = Some 150\<rparr>, [SimulateCall], Running)"
proof -
  have b: "system_bus connected" "dbus_available connected" "session_bus connected"
    by (simp_all add: connected_def)
  have c: "simulate_activity example_config" by (simp add: example_config_def)
  have d: "real_of_int (simulate_after_minutes example_config) \<le>
      (150 - (case idle_since \<lparr>last_idle_state = Some True, idle_since = Some 30\<rparr> of
                Some t \<Rightarrow> t | None \<Rightarrow> 150)) / 60"
    by (simp add: example_config_def)
  show ?thesis
    using b c simulate_resets_idle_since_either_way [OF b c d, of True] by simp
qed

text \<open>
  C2: run the loop from the initial locals along any list of iterations, with any
  settings and buses, and whatever the calls raise.  After the iterations that ran
  (as many as the run has event lists), \<open>idle_since\<close> is set exactly when the latest
  iteration that obtained a sample obtained \<open>True\<close>; with no sample yet it is unset.
  Every prefix of a run is a run, so this holds after each iteration.
\<close>

theorem idle_since_tracks_latest_sample:
  "(idle_since (fst (monitor_loop cfg b initial es)) \<noteq> None) =
     (latest_sample b (take (length (fst (snd (monitor_loop cfg b initial es)))) es) = Some True)"
  using loop_idle_since [of cfg b initial es]
  by (simp add: initial_def del: not_None_eq split: option.splits)

text \<open>
  C3: feed the loop, from the initial locals, any finite stream of successful samples
  (any clock readings, any settings, any outcomes of the simulation).  The number of
  \<open>Session idle detected\<close> records equals the number of contiguous runs of \<open>True\<close>
  among the samples.  An iteration that samples active sets \<open>last_idle_state\<close> to
  \<open>False\<close>, clears \<open>idle_since\<close> and produces no event at all.
\<close>

theorem idle_logged_once_per_run:
  assumes "system_bus b" and "dbus_available b"
  shows "idle_logged (fst (snd (monitor_loop cfg b initial (feed xs)))) = idle_runs (map fst xs) \<and>
         tick cfg b (answers (Some False) now ok) s =
           (s\<lparr>last_idle_state := Some False, idle_since := None\<rparr>, [], Running)"
  using loop_rises [OF assms, of cfg initial xs] tick_answers [OF assms, of cfg False now ok s]
  by (simp add: initial_def rises_runs keep_awake_not_idle track_idle_def)

theorem idle_logged_once_per_run_witness:
  "system_bus connected \<and> dbus_available connected \<and>
   idle_logged (fst (snd (monitor_loop example_config connected initial
      (feed [(False, 0, True), (False, 30, True), (True, 60, True), (True, 90, True),
             (True, 120, True), (False, 150, True), (True, 180, True)])))) = 2"
proof -
  have b: "system_bus connected" "dbus_available connected"
    by (simp_all add: connected_def)
  show ?thesis
    using b idle_logged_once_per_run [OF b, of example_config
      "[(False, 0, True), (False, 30, True), (True, 60, True), (True, 90, True),
        (True, 120, True), (False, 150, True), (True, 180, True)]"]
    by (simp add: idle_runs_def)
qed

text \<open>
  C4: the delay is two minutes and the simulation is enabled.  The loop starts from the
  initial locals; its first iteration reads the clock at \<open>0\<close>, and every iteration samples
  idle (the later clock readings and the outcomes of the calls are arbitrary).  Then every
  call of the simulation, the first included, happens at a clock reading of at least 120
  seconds, and each call after a call happens at least 120 seconds after it: the delay
  counts from the previous call, not from the start of the idle period.  This holds for
  calls that succeed and for calls that fail alike.
\<close>

theorem simulate_calls_spaced:
  assumes "system_bus b" and "dbus_available b"
    and "simulate_after_minutes cfg = 2" and "simulate_activity cfg"
  shows "(\<forall>c \<in> set (call_times (0 # map fst ticks)
                  (fst (snd (monitor_loop cfg b initial (feed (continuous_idle ((0, ok) # ticks))))))).
            120 \<le> c) \<and>
     successively (\<lambda>c c'. c + 120 \<le> c')
       (call_times (0 # map fst ticks)
          (fst (snd (monitor_loop cfg b initial (feed (continuous_idle ((0, ok) # ticks)))))))"
proof -
  let ?s1 = "(track_idle True 0 initial)\<lparr>last_idle_state := Some True\<rparr>"
  let ?k = "keep_awake cfg b (answers (Some True) 0 ok) True 0 ?s1"
  have f: "feed (continuous_idle ((0, ok) # ticks)) =
             answers (Some True) 0 ok # feed (continuous_idle ticks)"
    by (simp add: feed_def continuous_idle_def)
  have i: "idle_since ?s1 = Some 0"
    by (simp add: track_idle_def initial_def)
  note kc = keep_awake_call [OF i, of cfg b "Some True" 0 ok True 0]
  have quiet: "SimulateCall \<notin> set (fst (snd ?k))"
    using kc assms(3) by auto
  then have after: "idle_since (fst ?k) = Some 0"
    using kc by auto
  have "call_times (0 # map fst ticks)
          (fst (snd (monitor_loop cfg b initial (feed (continuous_idle ((0, ok) # ticks)))))) =
        call_times (map fst ticks)
          (fst (snd (monitor_loop cfg b (fst ?k) (feed (continuous_idle ticks)))))"
    unfolding f loop_step [OF tick_answers [OF assms(1,2)]]
    using quiet by (simp add: call_times_Cons initial_def)
  then show ?thesis
    using loop_spacing [OF assms(1,2,3) after, of ticks] by simp
qed

theorem simulate_calls_spaced_witness:
  "system_bus connected \<and> dbus_available connected \<and>
   simulate_after_minutes example_config = 2 \<and> simulate_activity example_config \<and>
   call_times (0 # map fst [(60, True), (120, True), (180, True), (240, False)])
     (fst (snd (monitor_loop example_config connected initial
        (feed (continuous_idle ((0, True) # [(60, True), (120, True), (180, True), (240, False)]))))))
     = [120, 240] \<and>
   successively (\<lambda>c c'. c + 120 \<le> c')
     (call_times (0 # map fst [(60, True), (120, True), (180, True), (240, False)])
       (fst (snd (monitor_loop example_config connected initial
          (feed (continuous_idle ((0, True) # [(60, True), (120, True), (180, True), (240, False)])))))))"
proof -
  have b: "system_bus connected" "dbus_available connected"
    by (simp_all add: connected_def)
  have c: "simulate_after_minutes example_config = 2" "simulate_activity example_config"
    by (simp_all add: example_config_def)
  have v: "call_times (0 # map fst [(60, True), (120, True), (180, True), (240, False)])
     (fst (snd (monitor_loop example_config connected initial
        (feed (continuous_idle ((0, True) # [(60, True), (120, True), (180, True), (240, False)]))))))
     = [120, 240]"
    by (simp add: run_defs)
  have s: "successively (\<lambda>c c'. c + 120 \<le> c')
     (call_times (0 # map fst [(60, True), (120, True), (180, True), (240, False)])
       (fst (snd (monitor_loop example_config connected initial
          (feed (continuous_idle ((0, True) # [(60, True), (120, True), (180, True), (240, False)])))))))"
    using simulate_calls_spaced [OF b c, of "[(60, True), (120, True), (180, True), (240, False)]" True]
    by (rule conjunct2)
  show ?thesis
    using b c v s by simp
qed

text \<open>
  C5: an iteration that obtains no sample (the query returned \<open>None\<close>, or was not made
  for want of a system bus, or raised) leaves \<open>last_idle_state\<close> and \<open>idle_since\<close> as they
  were and does not call the simulation, for all locals, settings and buses.
\<close>

theorem no_sample_frames_tracker:
  assumes "idle_sample b e = None"
  shows "fst (tick cfg b e s) = s \<and> SimulateCall \<notin> set (fst (snd (tick cfg b e s)))"
proof -
  have "fst (snd (poll_body cfg b e s)) = [] \<or>
        fst (snd (poll_body cfg b e s)) = [Log WARNING ''Session monitor running (no D-Bus)'']"
    using assms
    by (auto simp: poll_body_def idle_sample_def split: sum.splits option.splits if_splits)
  then have "SimulateCall \<notin> set (fst (snd (tick cfg b e s)))"
    by (auto simp: tick_def split: prod.splits option.splits if_splits)
  then show ?thesis
    using assms by (simp add: tick_state poll_body_no_sample)
qed

theorem no_sample_frames_tracker_witness:
  "idle_sample connected (answers None 30 True) = None \<and>
   fst (tick example_config connected (answers None 30 True)
          \<lparr>last_idle_state = Some True, idle_since = Some 0\<rparr>) =
     \<lparr>last_idle_state = Some True, idle_since = Some 0\<rparr> \<and>
   SimulateCall \<notin> set (fst (snd (tick example_config connected (answers None 30 True)
          \<lparr>last_idle_state = Some True, idle_since = Some 0\<rparr>)))"
proof -
  have h: "idle_sample connected (answers None 30 True) = None"
    by (simp add: idle_sample_def connected_def answers_def get_logind_idle_hint_def)
  show ?thesis
    using h no_sample_frames_tracker [OF h, of example_config
      "\<lparr>last_idle_state = Some True, idle_since = Some 0\<rparr>"]
    by simp
qed

text \<open>
  C6, as stated, at an input: the query fails at clock reading 30.  The claim has a log
  record for every such iteration; this one logs nothing, because line 143 lets the
  record through only when \<open>int(now) % 300 == 0\<close>.
\<close>

theorem failed_query_tick_silent:
  "get_logind_idle_hint (dbus_available connected) (idle_reply (answers None 30 True)) = Inr None \<and>
   tick example_config connected (answers None 30 True) initial = (initial, [], Running)"
  by (simp add: run_defs)

text \<open>
  C6, amended: on an iteration whose query returns \<open>None\<close> (and whose logging call
  returns), the loop emits the single warning \<open>Session monitor running (no D-Bus)\<close> when
  the clock reading, truncated to whole seconds, is a multiple of 300, and emits nothing
  otherwise; either way it goes on to the next iteration's sleep.
\<close>

theorem failed_query_logs_on_five_minute_mark:
  assumes "get_logind_idle_hint (dbus_available b) (idle_reply e) = Inr None"
    and "warning_call e = None"
  shows "tick cfg b e s =
           (s,
            if py_trunc (clock e) mod 300 = 0
            then [Log WARNING ''Session monitor running (no D-Bus)''] else [],
            after_sleep e)"
  using assms by (simp add: tick_def poll_body_def)

theorem failed_query_logs_on_five_minute_mark_witness:
  "get_logind_idle_hint (dbus_available connected) (idle_reply (answers None 600 True)) = Inr None \<and>
   warning_call (answers None 600 True) = None \<and>
   tick example_config connected (answers None 600 True) initial =
     (initial, [Log WARNING ''Session monitor running (no D-Bus)''], Running)"
proof -
  have h: "get_logind_idle_hint (dbus_available connected) (idle_reply (answers None 600 True)) =
             Inr None"
    by (simp add: connected_def answers_def get_logind_idle_hint_def)
  have w: "warning_call (answers None 600 True) = None"
    by (simp add: answers_def)
  have c: "py_trunc (clock (answers None 600 True)) mod 300 = 0"
    by (simp add: answers_def py_trunc_def)
  have a: "after_sleep (answers None 600 True) = Running"
    by (simp add: answers_def after_sleep_def)
  show ?thesis
    using h w failed_query_logs_on_five_minute_mark [OF h w, of example_config initial]
    by (simp add: c a)
qed




text \<open>
  C8, as stated, at two inputs.  In the first run the warning of line 130 raises an
  \<open>Exception\<close>, the handler is entered, and its own \<open>logger.error\<close> of line 147 raises
  too: that call is outside the \<open>try\<close>, and the exception ends the loop.  In the second
  run the body is uneventful and the sleep of line 149, also outside the \<open>try\<close>, raises
  an \<open>Exception\<close>, which is how the repository's own test leaves the loop.  Neither
  exception is a shutdown signal.
\<close>

theorem exception_after_try_stops_loop:
  "monitor_loop example_config connected initial
     [(answers (Some True) 0 True)
        \<lparr>warning_call := Some (Exc ''disk full''), handler_call := Some (Exc ''log dead'')\<rparr>] =
     (\<lparr>last_idle_state = None, idle_since = Some 0\<rparr>, [[]], Stopped (Exc ''log dead'')) \<and>
   monitor_loop example_config connected initial
     [(answers (Some False) 30 True)\<lparr>sleep_call := Some (Exc ''Test exit'')\<rparr>] =
     (\<lparr>last_idle_state = Some False, idle_since = None\<rparr>, [[]], Stopped (Exc ''Test exit''))"
  by (simp add: run_defs)

text \<open>
  C8, amended: an \<open>Exception\<close> raised by any call inside the \<open>try\<close> (the query, a logging
  call of the body, the simulation) never ends the loop.  In a run where every exception
  raised inside the \<open>try\<close> is an instance of \<open>Exception\<close> and the two calls after the
  \<open>try\<close>, the handler's own log call and the sleep, return, every iteration runs and the
  loop is still going afterwards.  And whenever a run does end with an exception, some
  iteration let it out in one of three ways: the handler's log call raised it, the sleep
  raised it, or a call inside the \<open>try\<close> raised it and it is not an instance of
  \<open>Exception\<close> (an interrupt or a cancellation).
\<close>

theorem only_escaping_exceptions_stop_loop:
  "((\<forall>e \<in> set es. raises_only_Exception e \<and> handler_call e = None \<and> sleep_call e = None) \<longrightarrow>
      snd (snd (monitor_loop cfg b s es)) = Running \<and>
      length (fst (snd (monitor_loop cfg b s es))) = length es) \<and>
   (snd (snd (monitor_loop cfg b s es)) = Stopped x \<longrightarrow> (\<exists>e \<in> set es. stops_loop e x))"
  using loop_goes_on [of es cfg b s] loop_stops [of cfg b s es x] by blast

theorem only_escaping_exceptions_stop_loop_witness:
  "raises_only_Exception ((answers (Some True) 0 True)\<lparr>warning_call := Some (Exc ''disk full'')\<rparr>) \<and>
   handler_call ((answers (Some True) 0 True)\<lparr>warning_call := Some (Exc ''disk full'')\<rparr>) = None \<and>
   sleep_call ((answers (Some True) 0 True)\<lparr>warning_call := Some (Exc ''disk full'')\<rparr>) = None \<and>
   raises_only_Exception (answers (Some True) 30 True) \<and>
   handler_call (answers (Some True) 30 True) = None \<and>
   sleep_call (answers (Some True) 30 True) = None \<and>
   monitor_loop example_config connected initial
     [(answers (Some True) 0 True)\<lparr>warning_call := Some (Exc ''disk full'')\<rparr>,
      answers (Some True) 30 True] =
     (\<lparr>last_idle_state = Some True, idle_since = Some 0\<rparr>,
      [[Log ERROR ''Monitor error: disk full''], [Log WARNING ''Session idle detected'']],
      Running) \<and>
   length (fst (snd (monitor_loop example_config connected initial
     [(answers (Some True) 0 True)\<lparr>warning_call := Some (Exc ''disk full'')\<rparr>,
      answers (Some True) 30 True]))) = 2 \<and>
   snd (snd (monitor_loop example_config connected initial
     [(answers (Some True) 0 True)\<lparr>idle_reply := Inl (BaseExc ''CancelledError'')\<rparr>])) =
     Stopped (BaseExc ''CancelledError'') \<and>
   stops_loop ((answers (Some True) 0 True)\<lparr>idle_reply := Inl (BaseExc ''CancelledError'')\<rparr>)
     (BaseExc ''CancelledError'')"
proof -
  have h: "\<forall>e \<in> set [(answers (Some True) 0 True)\<lparr>warning_call := Some (Exc ''disk full'')\<rparr>,
               answers (Some True) 30 True].
      raises_only_Exception e \<and> handler_call e = None \<and> sleep_call e = None"
    by (simp add: raises_only_Exception_def answers_def)
  have v: "monitor_loop example_config connected initial
     [(answers (Some True) 0 True)\<lparr>warning_call := Some (Exc ''disk full'')\<rparr>,
      answers (Some True) 30 True] =
     (\<lparr>last_idle_state = Some True, idle_since = Some 0\<rparr>,
      [[Log ERROR ''Monitor error: disk full''], [Log WARNING ''Session idle detected'']],
      Running)"
    by (simp add: run_defs)
  have n: "length (fst (snd (monitor_loop example_config connected initial
     [(answers (Some True) 0 True)\<lparr>warning_call := Some (Exc ''disk full'')\<rparr>,
      answers (Some True) 30 True]))) = 2"
    using h only_escaping_exceptions_stop_loop [of
      "[(answers (Some True) 0 True)\<lparr>warning_call := Some (Exc ''disk full'')\<rparr>,
        answers (Some True) 30 True]" example_config connected initial]
    by simp
  have c: "snd (snd (monitor_loop example_config connected initial
     [(answers (Some True) 0 True)\<lparr>idle_reply := Inl (BaseExc ''CancelledError'')\<rparr>])) =
     Stopped (BaseExc ''CancelledError'')"
    by (simp add: run_defs)
  have w: "stops_loop ((answers (Some True) 0 True)\<lparr>idle_reply := Inl (BaseExc ''CancelledError'')\<rparr>)
     (BaseExc ''CancelledError'')"
    using c only_escaping_exceptions_stop_loop [of
      "[(answers (Some True) 0 True)\<lparr>idle_reply := Inl (BaseExc ''CancelledError'')\<rparr>]"
      example_config connected initial "BaseExc ''CancelledError''"]
    by simp
  show ?thesis
    using h v n c w by simp
qed

text \<open>
  C9: with \<open>simulate_activity\<close> false, no iteration of any run, from any locals and
  whatever the samples, the clock and the calls do, calls the simulation.
\<close>

theorem disabled_never_simulates:
  "\<not> simulate_activity cfg \<Longrightarrow>
     SimulateCall \<notin> set (concat (fst (snd (monitor_loop cfg b s es))))"
proof (induction es arbitrary: s)
  case Nil
  show ?case by simp
next
  case (Cons e es)
  obtain s1 evs st where t: "tick cfg b e s = (s1, evs, st)"
    by (cases "tick cfg b e s") auto
  have one: "SimulateCall \<notin> set evs"
    using tick_no_call [OF Cons.prems, of b e s] t by simp
  show ?case
  proof (cases st)
    case Running
    then show ?thesis
      using t one Cons.IH [OF Cons.prems, of s1] by (simp split: prod.splits)
  next
    case (Stopped x)
    then show ?thesis using t one by simp
  qed
qed

theorem disabled_never_simulates_witness:
  "\<not> simulate_activity (example_config\<lparr>simulate_activity := False\<rparr>) \<and>
   SimulateCall \<notin> set (concat (fst (snd
     (monitor_loop (example_config\<lparr>simulate_activity := False\<rparr>) connected initial
        (feed [(True, 0, True), (True, 600, True), (True, 6000, True)])))))"
proof -
  have h: "\<not> simulate_activity (example_config\<lparr>simulate_activity := False\<rparr>)"
    by simp
  show ?thesis
    using h disabled_never_simulates [OF h, of connected initial
      "feed [(True, 0, True), (True, 600, True), (True, 6000, True)]"]
    by simp
qed

text \<open>
  C10: two settings that agree on \<open>simulate_after_minutes\<close> and \<open>simulate_activity\<close>, and so
  differ in \<open>idle_minutes\<close> at most, give the same run on the same iterations: the same
  events in the same order (log records and simulation calls), the same locals, the same
  end.  The settings are the three locals that lines 91 to 93 assign.
\<close>

theorem idle_minutes_unobserved:
  assumes "simulate_after_minutes c1 = simulate_after_minutes c2"
    and "simulate_activity c1 = simulate_activity c2"
  shows "monitor_loop c1 b s es = monitor_loop c2 b s es"
  by (induction es arbitrary: s) (simp_all add: tick_cong [OF assms])

theorem idle_minutes_unobserved_witness:
  "simulate_after_minutes example_config = simulate_after_minutes (example_config\<lparr>idle_minutes := 45\<rparr>) \<and>
   simulate_activity example_config = simulate_activity (example_config\<lparr>idle_minutes := 45\<rparr>) \<and>
   monitor_loop example_config connected initial (feed [(True, 0, True), (True, 600, True)]) =
   monitor_loop (example_config\<lparr>idle_minutes := 45\<rparr>) connected initial
     (feed [(True, 0, True), (True, 600, True)])"
proof -
  have a: "simulate_after_minutes example_config =
           simulate_after_minutes (example_config\<lparr>idle_minutes := 45\<rparr>)"
    by simp
  have c: "simulate_activity example_config =
           simulate_activity (example_config\<lparr>idle_minutes := 45\<rparr>)"
    by simp
  show ?thesis
    using a c idle_minutes_unobserved [OF a c, of connected initial
      "feed [(True, 0, True), (True, 600, True)]"]
    by simp
qed

end
